theory Spec2Isabelle
  imports Main "HOL-Library.Sublist" "HOL-Library.AList"
begin

section \<open>Python values used by generate\_topology.py\<close>

text \<open>
  Strings are \<^typ>\<open>string\<close>. A Python dict is an association list in insertion order
  (\<open>d.items()\<close> walks it front to back, \<open>d[k] = v\<close> is \<^const>\<open>AList.update\<close>:
  the value is replaced in place when the key exists, else the pair is appended,
  \<open>d.get(k)\<close> is \<^const>\<open>map_of\<close>). Exceptions are values of \<open>py_error\<close>.
\<close>

datatype py_error = IndexError | KeyError

text \<open>A \<open>for x in xs\<close> loop whose body may raise: the first exception leaves the loop.\<close>

fun for_each :: "('s \<Rightarrow> 'a \<Rightarrow> py_error + 's) \<Rightarrow> 's \<Rightarrow> 'a list \<Rightarrow> py_error + 's" where
  "for_each body st [] = Inr st"
| "for_each body st (x # xs) =
     (case body st x of Inl e \<Rightarrow> Inl e | Inr st' \<Rightarrow> for_each body st' xs)"

text \<open>
  \<open>s.replace(old, new)\<close>: every non-overlapping occurrence of \<open>old\<close>, found from the
  left, is replaced. For an empty \<open>old\<close> Python puts \<open>new\<close> before every character and
  at the end.
\<close>

function str_replace :: "string \<Rightarrow> string \<Rightarrow> string \<Rightarrow> string" where
  "str_replace old new [] = (if old = [] then new else [])"
| "str_replace old new (c # cs) =
     (if old = [] then new @ concat (map (\<lambda>d. d # new) (c # cs))
      else if prefix old (c # cs) then new @ str_replace old new (drop (length old) (c # cs))
      else c # str_replace old new cs)"
  by pat_completeness auto
termination
  by (relation "measure (\<lambda>(old, new, s). length s)") auto

section \<open>Interface-name normalizer\<close>

definition interface_full_name_map :: "(string \<times> string) list" where
  "interface_full_name_map =
     [(''Eth'', ''Ethernet''),
      (''Fa'', ''FastEthernet''),
      (''Gi'', ''GigabitEthernet''),
      (''Te'', ''TenGigabitEthernet'')]"

fun if_fullname_loop :: "(string \<times> string) list \<Rightarrow> string \<Rightarrow> string" where
  "if_fullname_loop [] ifname = ifname"
| "if_fullname_loop ((k, v) # rest) ifname =
     (if prefix v ifname then ifname
      else if prefix k ifname then str_replace k v ifname
      else if_fullname_loop rest ifname)"

definition if_fullname :: "string \<Rightarrow> string" where
  "if_fullname ifname = if_fullname_loop interface_full_name_map ifname"

fun if_shortname_loop :: "(string \<times> string) list \<Rightarrow> string \<Rightarrow> string" where
  "if_shortname_loop [] ifname = ifname"
| "if_shortname_loop ((k, v) # rest) ifname =
     (if prefix v ifname then str_replace v k ifname
      else if_shortname_loop rest ifname)"

definition if_shortname :: "string \<Rightarrow> string" where
  "if_shortname ifname = if_shortname_loop interface_full_name_map ifname"

section \<open>Collection-result normalizer\<close>

text \<open>
  A value that the code stores either as the empty list \<open>[]\<close> or as a dict. Both
  an empty list and an empty dict are falsy.
\<close>

datatype 'a list_or_dict = EmptyList | Dict "(string \<times> 'a) list"

fun truthy :: "'a list_or_dict \<Rightarrow> bool" where
  "truthy EmptyList = False"
| "truthy (Dict d) = (d \<noteq> [])"

text \<open>One LLDP neighbor record, with the three keys the code reads.\<close>

record neighbor =
  remote_system_name :: string
  remote_port :: string
  remote_system_enable_capab :: "string list"

type_synonym facts = "(string \<times> string) list"
type_synonym lldp_detail = "(string \<times> neighbor list) list"

text \<open>
  The poll outcome of one inventory device: \<open>output[0].failed\<close> is true, or
  \<open>output[1].result\<close> holds the dicts \<open>facts\<close> and \<open>lldp_neighbors_detail\<close>.
\<close>

datatype poll_outcome = Failed | Polled facts lldp_detail





section \<open>Topology extractor\<close>

type_synonym link_end = "string \<times> string"
type_synonym interconnection = "link_end \<times> link_end"

record extract_state =
  discovered_hosts :: "string set"
  lldp_capabilities_dict :: "(string \<times> string) list"
  global_interconnections :: "interconnection list"

text \<open>
  The body of the innermost loop (lines 136 to 156). The remote name is added to the
  hosts before \<open>remote_system_enable_capab[0]\<close> is read, which raises IndexError on
  an empty list.
\<close>

definition neighbor_step ::
  "string \<Rightarrow> string \<Rightarrow> extract_state \<Rightarrow> neighbor \<Rightarrow> py_error + extract_state" where
  "neighbor_step host interface st nb =
     (if remote_system_name nb = [] then Inr st
      else
        (case remote_system_enable_capab nb of
           [] \<Rightarrow> Inl IndexError
         | cap # _ \<Rightarrow>
             let local_end = (host, interface);
                 remote_end = (remote_system_name nb, if_fullname (remote_port nb));
                 link_is_already_there =
                   ((local_end, remote_end) \<in> set (global_interconnections st)
                    \<or> (remote_end, local_end) \<in> set (global_interconnections st));
                 st' = st\<lparr>discovered_hosts := insert (remote_system_name nb) (discovered_hosts st),
                          lldp_capabilities_dict :=
                            AList.update (remote_system_name nb) cap (lldp_capabilities_dict st)\<rparr>
             in if link_is_already_there then Inr st'
                else Inr (st'\<lparr>global_interconnections := global_interconnections st @
                       [((host, interface),
                         (remote_system_name nb, if_fullname (remote_port nb)))]\<rparr>)))"

fun interface_step ::
  "string \<Rightarrow> extract_state \<Rightarrow> string \<times> neighbor list \<Rightarrow> py_error + extract_state" where
  "interface_step host st (interface, neighbors) = for_each (neighbor_step host interface) st neighbors"

fun host_step ::
  "extract_state \<Rightarrow> string \<times> neighbor list list_or_dict \<Rightarrow> py_error + extract_state" where
  "host_step st (host, lldp_data) =
     (if host = [] then Inr st
      else
        let st' = st\<lparr>discovered_hosts := insert host (discovered_hosts st)\<rparr>
        in (case lldp_data of
              EmptyList \<Rightarrow> Inr st'
            | Dict d \<Rightarrow> if d = [] then Inr st' else for_each (interface_step host) st' d))"

definition extract_lldp_details ::
  "(string \<times> neighbor list list_or_dict) list \<Rightarrow>
   py_error + string set \<times> interconnection list \<times> (string \<times> string) list" where
  "extract_lldp_details lldp_data_dict =
     (case for_each host_step
             \<lparr>discovered_hosts = {}, lldp_capabilities_dict = [], global_interconnections = []\<rparr>
             lldp_data_dict of
        Inl e \<Rightarrow> Inl e
      | Inr st \<Rightarrow>
          Inr (discovered_hosts st, global_interconnections st, lldp_capabilities_dict st))"

text \<open>
  The remote system names of all neighbor records of an LLDP mapping: the devices that
  some report names as a neighbor.
\<close>

definition reported_neighbors :: "(string \<times> neighbor list list_or_dict) list \<Rightarrow> string list" where
  "reported_neighbors lldp_data_dict =
     concat (map (\<lambda>(host, lldp_data).
       (case lldp_data of
          EmptyList \<Rightarrow> []
        | Dict d \<Rightarrow> concat (map (\<lambda>(interface, neighbors). map remote_system_name neighbors) d)))
       lldp_data_dict)"

section \<open>Topology builder\<close>

definition icon_type_map :: "(string \<times> string) list" where
  "icon_type_map =
     [(''router'', ''router''),
      (''switch'', ''switch''),
      (''bridge'', ''switch''),
      (''station'', ''host'')]"

text \<open>\<open>d.get(k, default)\<close>\<close>

definition dict_get :: "('k \<times> 'v) list \<Rightarrow> 'k \<Rightarrow> 'v \<Rightarrow> 'v" where
  "dict_get d k dflt = (case map_of d k of None \<Rightarrow> dflt | Some v \<Rightarrow> v)"

definition get_icon_type :: "string \<Rightarrow> string" where
  "get_icon_type device_cap_name = dict_get icon_type_map device_cap_name ''unknown''"

text \<open>
  The dicts of the topology. Both a node and a link have a key \<open>id\<close>; the fields
  are \<open>node_id\<close> and \<open>link_id\<close> here. Python's integers are unbounded and the
  counters start at 0 and only grow, so they are natural numbers.
\<close>

record node =
  node_id :: nat
  name :: string
  model :: string
  serial_number :: string
  icon :: string

record link =
  link_id :: nat
  source :: nat
  target :: nat
  srcIfName :: string
  srcDevice :: string
  tgtIfName :: string
  tgtDevice :: string

record topology =
  nodes :: "node list"
  links :: "link list"

record node_state =
  host_id :: nat
  host_id_map :: "(string \<times> nat) list"
  topology_nodes :: "node list"

record link_state =
  next_link_id :: nat
  topology_links :: "link list"

text \<open>
  \<open>facts.get(host)\<close> is falsy for a missing key, for \<open>[]\<close> and for an empty dict; only
  then do model and serial number stay \<open>n/a\<close>.
\<close>

definition facts_field :: "(string \<times> string list_or_dict) list \<Rightarrow> string \<Rightarrow> string \<Rightarrow> string" where
  "facts_field fs host field =
     (case map_of fs host of
        None \<Rightarrow> ''n/a''
      | Some EmptyList \<Rightarrow> ''n/a''
      | Some (Dict d) \<Rightarrow> if d = [] then ''n/a'' else dict_get d field ''n/a'')"

definition node_step ::
  "(string \<times> string) list \<Rightarrow> (string \<times> string list_or_dict) list \<Rightarrow>
   node_state \<Rightarrow> string \<Rightarrow> node_state" where
  "node_step caps fs st host =
     \<lparr>host_id = host_id st + 1,
      host_id_map = AList.update host (host_id st) (host_id_map st),
      topology_nodes = topology_nodes st @
        [\<lparr>node_id = host_id st,
          name = host,
          model = facts_field fs host ''model'',
          serial_number = facts_field fs host ''serial_number'',
          icon = get_icon_type (dict_get caps host [])\<rparr>]\<rparr>"

text \<open>\<open>host_id_map[...]\<close> raises KeyError for a device that is not a key of the map.\<close>

definition link_step ::
  "(string \<times> nat) list \<Rightarrow> link_state \<Rightarrow> interconnection \<Rightarrow> py_error + link_state" where
  "link_step idmap st l =
     (case map_of idmap (fst (fst l)) of
        None \<Rightarrow> Inl KeyError
      | Some s \<Rightarrow>
          (case map_of idmap (fst (snd l)) of
             None \<Rightarrow> Inl KeyError
           | Some t \<Rightarrow>
               Inr \<lparr>next_link_id = next_link_id st + 1,
                    topology_links = topology_links st @
                      [\<lparr>link_id = next_link_id st,
                        source = s,
                        target = t,
                        srcIfName = if_shortname (snd (fst l)),
                        srcDevice = fst (fst l),
                        tgtIfName = if_shortname (snd (snd l)),
                        tgtDevice = fst (snd l)\<rparr>]\<rparr>))"

text \<open>
  The first argument is the host set in the order in which the \<open>for\<close> loop enumerates
  it (a Python set has no order of its own). The first loop cannot raise; the second
  one can, at the lookups in \<open>host_id_map\<close>.
\<close>

definition nodes_loop ::
  "(string \<times> string) list \<Rightarrow> (string \<times> string list_or_dict) list \<Rightarrow> string list \<Rightarrow> node_state" where
  "nodes_loop caps fs hosts_in_order =
     foldl (node_step caps fs) \<lparr>host_id = 0, host_id_map = [], topology_nodes = []\<rparr> hosts_in_order"

definition generate_topology_json ::
  "string list \<Rightarrow> interconnection list \<Rightarrow> (string \<times> string) list \<Rightarrow>
   (string \<times> string list_or_dict) list \<Rightarrow> py_error + topology" where
  "generate_topology_json hosts_in_order interconnections caps fs =
     (let ns = nodes_loop caps fs hosts_in_order
      in (case for_each (link_step (host_id_map ns))
                 \<lparr>next_link_id = 0, topology_links = []\<rparr> interconnections of
            Inl e \<Rightarrow> Inl e
          | Inr ls \<Rightarrow> Inr \<lparr>nodes = topology_nodes ns, links = topology_links ls\<rparr>))"

section \<open>Diff engine\<close>

record 'a diff =
  added :: "'a list"
  deleted :: "'a list"

definition link_key :: "link \<Rightarrow> interconnection" where
  "link_key x = ((srcDevice x, srcIfName x), (tgtDevice x, tgtIfName x))"

text \<open>
  Each of the four loops appends the elements that pass its test, in order, which is
  \<^const>\<open>filter\<close>. The one-element tuple \<open>(name,)\<close> of a node is its name.
\<close>

definition get_topology_diff :: "topology \<Rightarrow> topology \<Rightarrow> string diff \<times> interconnection diff" where
  "get_topology_diff cached current =
     (let cached_links = map link_key (links cached);
          cached_nodes = map name (nodes cached);
          current_links = map link_key (links current);
          current_nodes = map name (nodes current)
      in (\<lparr>added = filter (\<lambda>n. n \<notin> set cached_nodes) current_nodes,
           deleted = filter (\<lambda>n. n \<notin> set current_nodes) cached_nodes\<rparr>,
          \<lparr>added = filter (\<lambda>(src, dst). (src, dst) \<notin> set cached_links \<and> (dst, src) \<notin> set cached_links)
                     current_links,
           deleted = filter (\<lambda>(src, dst). (src, dst) \<notin> set current_links \<and> (dst, src) \<notin> set current_links)
                     cached_links\<rparr>))"

section \<open>Notions used in the statements\<close>

text \<open>
  A link list in which every link occurs once, counting both endpoint orders; and the
  node and the link that the builder makes for the host and the interconnection at a
  given position.
\<close>

definition link_once :: "interconnection list \<Rightarrow> bool" where
  "link_once L = (\<forall>l \<in> set L. length (filter (\<lambda>l'. l' = l \<or> l' = prod.swap l) L) = 1)"

definition make_node ::
  "(string \<times> string) list \<Rightarrow> (string \<times> string list_or_dict) list \<Rightarrow> nat \<times> string \<Rightarrow> node" where
  "make_node caps fs p =
     \<lparr>node_id = fst p, name = snd p,
      model = facts_field fs (snd p) ''model'',
      serial_number = facts_field fs (snd p) ''serial_number'',
      icon = get_icon_type (dict_get caps (snd p) [])\<rparr>"

definition make_link :: "(string \<times> nat) list \<Rightarrow> nat \<times> interconnection \<Rightarrow> link" where
  "make_link idmap p =
     \<lparr>link_id = fst p,
      source = the (map_of idmap (fst (fst (snd p)))),
      target = the (map_of idmap (fst (snd (snd p)))),
      srcIfName = if_shortname (snd (fst (snd p))),
      srcDevice = fst (fst (snd p)),
      tgtIfName = if_shortname (snd (snd (snd p))),
      tgtDevice = fst (snd (snd p))\<rparr>"


section \<open>Example inputs\<close>

text \<open>
  Two devices \<open>a\<close> and \<open>b\<close> joined by one cable, each reporting the other. In the
  first mapping the local interface names are in long form, in the second they are
  abbreviated as the remote port names are.
\<close>

definition lldp_long_local :: "(string \<times> neighbor list list_or_dict) list" where
  "lldp_long_local =
     [(''a'', Dict [(''GigabitEthernet0/1'',
         [\<lparr>remote_system_name = ''b'', remote_port = ''Gi0/2'',
           remote_system_enable_capab = [''switch'']\<rparr>])]),
      (''b'', Dict [(''GigabitEthernet0/2'',
         [\<lparr>remote_system_name = ''a'', remote_port = ''Gi0/1'',
           remote_system_enable_capab = [''router'']\<rparr>])])]"

definition lldp_short_local :: "(string \<times> neighbor list list_or_dict) list" where
  "lldp_short_local =
     [(''a'', Dict [(''Gi0/1'',
         [\<lparr>remote_system_name = ''b'', remote_port = ''Gi0/2'',
           remote_system_enable_capab = [''switch'']\<rparr>])]),
      (''b'', Dict [(''Gi0/2'',
         [\<lparr>remote_system_name = ''a'', remote_port = ''Gi0/1'',
           remote_system_enable_capab = [''router'']\<rparr>])])]"

text \<open>
  Device \<open>a.example\<close> reports \<open>b.example\<close> on \<open>Gi0/1\<close>; the device with the inventory
  name \<open>b\<close> failed and has the empty list.
\<close>

definition lldp_one_report :: "(string \<times> neighbor list list_or_dict) list" where
  "lldp_one_report =
     [(''a.example'', Dict [(''Gi0/1'',
         [\<lparr>remote_system_name = ''b.example'', remote_port = ''Gi0/2'',
           remote_system_enable_capab = [''switch'']\<rparr>])]),
      (''b'', EmptyList)]"

definition facts_one_report :: "(string \<times> string list_or_dict) list" where
  "facts_one_report =
     [(''a.example'', Dict [(''fqdn'', ''a.example''), (''hostname'', ''a''),
                            (''model'', ''X''), (''serial_number'', ''1'')]),
      (''b'', EmptyList)]"

text \<open>A neighbor that advertises no enabled capability.\<close>

definition lldp_no_capability :: "(string \<times> neighbor list list_or_dict) list" where
  "lldp_no_capability =
     [(''a'', Dict [(''Gi0/1'',
         [\<lparr>remote_system_name = ''b'', remote_port = ''Gi0/2'',
           remote_system_enable_capab = []\<rparr>])])]"

text \<open>
  Poll results of two inventory devices. \<open>sw1\<close> failed. In the first mapping \<open>sw2\<close> has an
  empty FQDN and the hostname \<open>core\<close>; in the second its FQDN is \<open>sw1\<close>, the inventory
  name of the failed device.
\<close>

definition lldp_sw2 :: lldp_detail where
  "lldp_sw2 =
     [(''Gi0/1'', [\<lparr>remote_system_name = ''sw3'', remote_port = ''Gi0/2'',
                     remote_system_enable_capab = [''switch'']\<rparr>])]"

definition facts_core :: facts where
  "facts_core =
     [(''fqdn'', []), (''hostname'', ''core''), (''model'', ''X''), (''serial_number'', ''1'')]"


definition poll_distinct :: "(string \<times> poll_outcome) list" where
  "poll_distinct = [(''sw1'', Failed), (''sw2'', Polled facts_core lldp_sw2)]"


section \<open>Properties of the string replacement\<close>

lemma str_replace_hit:
  "old \<noteq> [] \<Longrightarrow> prefix old (c # cs) \<Longrightarrow>
   str_replace old new (c # cs) = new @ str_replace old new (drop (length old) (c # cs))"
  by simp

lemma str_replace_miss:
  "old \<noteq> [] \<Longrightarrow> \<not> prefix old (c # cs) \<Longrightarrow>
   str_replace old new (c # cs) = c # str_replace old new cs"
  by simp

lemma str_replace_prefix_new:
  "new \<noteq> [] \<Longrightarrow> str_replace new old (new @ t) = old @ str_replace new old t"
  by (cases new) simp_all

lemma prefix_str_replace:
  "a \<notin> set p \<Longrightarrow> prefix p (str_replace (a # old') (a # new') s) \<Longrightarrow> prefix p s"
proof (induction p arbitrary: s)
  case Nil
  then show ?case by simp
next
  case (Cons d p)
  then have d: "d \<noteq> a" and p: "a \<notin> set p" by auto
  show ?case
  proof (cases s)
    case Nil
    with Cons.prems show ?thesis by simp
  next
    case s: (Cons c cs)
    show ?thesis
    proof (cases "prefix (a # old') (c # cs)")
      case True
      have "str_replace (a # old') (a # new') (c # cs)
            = (a # new') @ str_replace (a # old') (a # new') (drop (length (a # old')) (c # cs))"
        by (rule str_replace_hit [OF _ True]) simp
      with Cons.prems(2) s d show ?thesis by simp
    next
      case False
      have "str_replace (a # old') (a # new') (c # cs) = c # str_replace (a # old') (a # new') cs"
        by (rule str_replace_miss [OF _ False]) simp
      with Cons.prems(2) s have "d = c" and "prefix p (str_replace (a # old') (a # new') cs)"
        by simp_all
      with Cons.IH [OF p] s show ?thesis by simp
    qed
  qed
qed

lemma str_replace_roundtrip:
  assumes "a \<notin> set old'"
  shows "str_replace ((a # old') @ w) (a # old') (str_replace (a # old') ((a # old') @ w) s) = s"
proof (induction s rule: length_induct)
  case (1 s)
  let ?old = "a # old'"
  let ?new = "(a # old') @ w"
  show ?case
  proof (cases s)
    case Nil
    then show ?thesis by simp
  next
    case s: (Cons c cs)
    show ?thesis
    proof (cases "prefix ?old (c # cs)")
      case True
      then obtain r where r: "c # cs = ?old @ r"
        by (auto simp: prefix_def)
      then have len: "length r < length s" using s by simp
      have "str_replace ?old ?new (c # cs)
            = ?new @ str_replace ?old ?new (drop (length ?old) (c # cs))"
        by (rule str_replace_hit [OF _ True]) simp
      also have "drop (length ?old) (c # cs) = r"
        unfolding r by simp
      finally have fwd: "str_replace ?old ?new s = ?new @ str_replace ?old ?new r"
        using s by simp
      have "str_replace ?new ?old (?new @ str_replace ?old ?new r)
            = ?old @ str_replace ?new ?old (str_replace ?old ?new r)"
        by (rule str_replace_prefix_new) simp
      also have "str_replace ?new ?old (str_replace ?old ?new r) = r"
        using 1 len by blast
      finally show ?thesis using fwd r s by simp
    next
      case False
      let ?t = "str_replace ?old ?new cs"
      have step: "str_replace ?old ?new s = c # ?t"
        unfolding s by (rule str_replace_miss [OF _ False]) simp
      have no: "\<not> prefix ?new (c # ?t)"
      proof
        assume "prefix ?new (c # ?t)"
        then have "prefix ?old (c # ?t)"
          using append_prefixD by blast
        then have "c = a" and "prefix old' ?t" by auto
        then have "prefix old' cs"
          using prefix_str_replace [OF assms, of old' "old' @ w" cs] by simp
        with \<open>c = a\<close> False show False by simp
      qed
      have "str_replace ?new ?old (c # ?t) = c # str_replace ?new ?old ?t"
        by (rule str_replace_miss [OF _ no]) simp
      moreover have "str_replace ?new ?old ?t = cs"
        using 1 s by simp
      ultimately show ?thesis using step s by simp
    qed
  qed
qed

lemma length_str_replace_le:
  "new \<noteq> [] \<Longrightarrow> length old \<le> length new \<Longrightarrow> length (str_replace new old s) \<le> length s"
proof (induction s rule: length_induct)
  case (1 s)
  show ?case
  proof (cases s)
    case Nil
    with 1 show ?thesis by simp
  next
    case s: (Cons c cs)
    show ?thesis
    proof (cases "prefix new (c # cs)")
      case True
      then obtain r where r: "c # cs = new @ r" by (auto simp: prefix_def)
      have "length r < length s" using r s 1(2) by (cases new) auto
      then have "length (str_replace new old r) \<le> length r" using 1 by blast
      moreover have "str_replace new old (new @ r) = old @ str_replace new old r"
        by (rule str_replace_prefix_new [OF 1(2)])
      ultimately show ?thesis using r s 1(3) by simp
    next
      case False
      have "str_replace new old (c # cs) = c # str_replace new old cs"
        by (rule str_replace_miss [OF 1(2) False])
      moreover have "length (str_replace new old cs) \<le> length cs" using 1 s by simp
      ultimately show ?thesis using s by simp
    qed
  qed
qed

section \<open>Interface names: round trip\<close>

lemma table_cases:
  "(k, v) \<in> set interface_full_name_map \<Longrightarrow>
   (k = ''Eth'' \<and> v = ''Ethernet'') \<or> (k = ''Fa'' \<and> v = ''FastEthernet'')
   \<or> (k = ''Gi'' \<and> v = ''GigabitEthernet'') \<or> (k = ''Te'' \<and> v = ''TenGigabitEthernet'')"
  by (simp add: interface_full_name_map_def)

lemma table_lengths:
  "(k, v) \<in> set interface_full_name_map \<Longrightarrow> v \<noteq> [] \<and> length k < length v"
  by (drule table_cases) (elim disjE conjE, simp_all)

lemma roundtrip_short:
  assumes kv: "(k, v) \<in> set interface_full_name_map"
    and short: "prefix k x"
    and nolong: "list_all (\<lambda>(k', v'). \<not> prefix v' x) interface_full_name_map"
  shows "if_shortname (if_fullname x) = x"
proof -
  from short obtain r where x: "x = k @ r" by (auto simp: prefix_def)
  from table_cases [OF kv] show ?thesis
  proof (elim disjE conjE)
    assume e1: "k = ''Eth''" "v = ''Ethernet''"
    have f: "if_fullname x = str_replace ''Eth'' ''Ethernet'' x"
      using nolong unfolding x e1 if_fullname_def interface_full_name_map_def by simp
    obtain t where t: "str_replace ''Eth'' ''Ethernet'' x = ''Ethernet'' @ t"
      unfolding x e1 by simp
    have "if_shortname (''Ethernet'' @ t) = str_replace ''Ethernet'' ''Eth'' (''Ethernet'' @ t)"
      unfolding if_shortname_def interface_full_name_map_def by simp
    then have "if_shortname (if_fullname x)
          = str_replace ''Ethernet'' ''Eth'' (str_replace ''Eth'' ''Ethernet'' x)"
      unfolding f t .
    also have "\<dots> = x"
      using str_replace_roundtrip [of "CHR ''E''" "''th''" "''ernet''" x] by simp
    finally show ?thesis .
  next
    assume e2: "k = ''Fa''" "v = ''FastEthernet''"
    have f: "if_fullname x = str_replace ''Fa'' ''FastEthernet'' x"
      using nolong unfolding x e2 if_fullname_def interface_full_name_map_def by simp
    obtain t where t: "str_replace ''Fa'' ''FastEthernet'' x = ''FastEthernet'' @ t"
      unfolding x e2 by simp
    have "if_shortname (''FastEthernet'' @ t) = str_replace ''FastEthernet'' ''Fa'' (''FastEthernet'' @ t)"
      unfolding if_shortname_def interface_full_name_map_def by simp
    then have "if_shortname (if_fullname x)
          = str_replace ''FastEthernet'' ''Fa'' (str_replace ''Fa'' ''FastEthernet'' x)"
      unfolding f t .
    also have "\<dots> = x"
      using str_replace_roundtrip [of "CHR ''F''" "''a''" "''stEthernet''" x] by simp
    finally show ?thesis .
  next
    assume e3: "k = ''Gi''" "v = ''GigabitEthernet''"
    have f: "if_fullname x = str_replace ''Gi'' ''GigabitEthernet'' x"
      using nolong unfolding x e3 if_fullname_def interface_full_name_map_def by simp
    obtain t where t: "str_replace ''Gi'' ''GigabitEthernet'' x = ''GigabitEthernet'' @ t"
      unfolding x e3 by simp
    have "if_shortname (''GigabitEthernet'' @ t) = str_replace ''GigabitEthernet'' ''Gi'' (''GigabitEthernet'' @ t)"
      unfolding if_shortname_def interface_full_name_map_def by simp
    then have "if_shortname (if_fullname x)
          = str_replace ''GigabitEthernet'' ''Gi'' (str_replace ''Gi'' ''GigabitEthernet'' x)"
      unfolding f t .
    also have "\<dots> = x"
      using str_replace_roundtrip [of "CHR ''G''" "''i''" "''gabitEthernet''" x] by simp
    finally show ?thesis .
  next
    assume e4: "k = ''Te''" "v = ''TenGigabitEthernet''"
    have f: "if_fullname x = str_replace ''Te'' ''TenGigabitEthernet'' x"
      using nolong unfolding x e4 if_fullname_def interface_full_name_map_def by simp
    obtain t where t: "str_replace ''Te'' ''TenGigabitEthernet'' x = ''TenGigabitEthernet'' @ t"
      unfolding x e4 by simp
    have "if_shortname (''TenGigabitEthernet'' @ t) = str_replace ''TenGigabitEthernet'' ''Te'' (''TenGigabitEthernet'' @ t)"
      unfolding if_shortname_def interface_full_name_map_def by simp
    then have "if_shortname (if_fullname x)
          = str_replace ''TenGigabitEthernet'' ''Te'' (str_replace ''Te'' ''TenGigabitEthernet'' x)"
      unfolding f t .
    also have "\<dots> = x"
      using str_replace_roundtrip [of "CHR ''T''" "''e''" "''nGigabitEthernet''" x] by simp
    finally show ?thesis .
  qed
qed


lemma roundtrip_long:
  assumes kv: "(k, v) \<in> set interface_full_name_map" and long: "prefix v x"
  shows "if_fullname x = x" and "if_shortname x = str_replace v k x"
    and "length (str_replace v k x) < length x"
proof -
  from long obtain r where x: "x = v @ r" by (auto simp: prefix_def)
  from table_cases [OF kv]
  have "if_fullname x = x \<and> if_shortname x = str_replace v k x"
    unfolding x if_fullname_def if_shortname_def interface_full_name_map_def
    by (elim disjE conjE) simp_all
  then show "if_fullname x = x" and "if_shortname x = str_replace v k x" by simp_all
  from table_lengths [OF kv] have v: "v \<noteq> []" and kl: "length k < length v"
    by simp_all
  have "str_replace v k (v @ r) = k @ str_replace v k r"
    by (rule str_replace_prefix_new [OF v])
  moreover have "length (str_replace v k r) \<le> length r"
    using length_str_replace_le [OF v] kl by simp
  ultimately show "length (str_replace v k x) < length x"
    using kl unfolding x by simp
qed

text \<open>
  Claim C7, as the code has it. For a table entry \<open>(k, v)\<close>: a name that starts with the
  short prefix \<open>k\<close> and with none of the table's long forms is mapped to its long form
  by \<open>if_fullname\<close> and back to itself by \<open>if_shortname\<close>. A name that already starts
  with the long form \<open>v\<close> is left unchanged by \<open>if_fullname\<close>, and \<open>if_shortname\<close> then
  replaces every \<open>v\<close> in it by \<open>k\<close>, which gives a strictly shorter name.
\<close>

theorem if_name_roundtrip:
  assumes "(k, v) \<in> set interface_full_name_map"
  shows "(prefix k x \<and> list_all (\<lambda>(k', v'). \<not> prefix v' x) interface_full_name_map
            \<longrightarrow> if_shortname (if_fullname x) = x)
       \<and> (prefix v x \<longrightarrow> if_fullname x = x
            \<and> if_shortname (if_fullname x) = str_replace v k x
            \<and> length (if_shortname (if_fullname x)) < length x)"
  using roundtrip_short [OF assms] roundtrip_long [OF assms] by simp

theorem if_name_roundtrip_witness:
  "(''Gi'', ''GigabitEthernet'') \<in> set interface_full_name_map
   \<and> prefix ''Gi'' ''Gi0/1''
   \<and> list_all (\<lambda>(k', v'). \<not> prefix v' ''Gi0/1'') interface_full_name_map
   \<and> if_shortname (if_fullname ''Gi0/1'') = ''Gi0/1''
   \<and> prefix ''GigabitEthernet'' ''GigabitEthernet0/1''
   \<and> if_fullname ''GigabitEthernet0/1'' = ''GigabitEthernet0/1''
   \<and> if_shortname (if_fullname ''GigabitEthernet0/1'') = ''Gi0/1''"
proof -
  have kv: "(''Gi'', ''GigabitEthernet'') \<in> set interface_full_name_map"
    by (simp add: interface_full_name_map_def)
  have a: "prefix ''Gi'' ''Gi0/1''
       \<and> list_all (\<lambda>(k', v'). \<not> prefix v' ''Gi0/1'') interface_full_name_map"
    by (simp add: interface_full_name_map_def)
  have b: "prefix ''GigabitEthernet'' ''GigabitEthernet0/1''" by simp
  have c: "str_replace ''GigabitEthernet'' ''Gi'' ''GigabitEthernet0/1'' = ''Gi0/1''" by simp
  have s: "if_shortname (if_fullname ''Gi0/1'') = ''Gi0/1''"
    using if_name_roundtrip [OF kv, of "''Gi0/1''"] a by blast
  have l: "if_fullname ''GigabitEthernet0/1'' = ''GigabitEthernet0/1''
       \<and> if_shortname (if_fullname ''GigabitEthernet0/1'')
           = str_replace ''GigabitEthernet'' ''Gi'' ''GigabitEthernet0/1''"
    using if_name_roundtrip [OF kv, of "''GigabitEthernet0/1''"] b by blast
  show ?thesis
    using kv a b s l unfolding c by blast
qed

text \<open>
  Claim C7 as stated fails for a name in long form: \<open>GigabitEthernet0/1\<close> starts with the
  long form (and with the short prefix \<open>Gi\<close>), and the round trip returns \<open>Gi0/1\<close>.
\<close>

theorem if_name_roundtrip_long_form_counterexample:
  "prefix ''Gi'' ''GigabitEthernet0/1'' \<and> prefix ''GigabitEthernet'' ''GigabitEthernet0/1''
   \<and> (''Gi'', ''GigabitEthernet'') \<in> set interface_full_name_map
   \<and> if_shortname (if_fullname ''GigabitEthernet0/1'') = ''Gi0/1''
   \<and> if_shortname (if_fullname ''GigabitEthernet0/1'') \<noteq> ''GigabitEthernet0/1''"
  by (simp add: if_shortname_def if_fullname_def interface_full_name_map_def)


section \<open>Loops and invariants of the extractor\<close>

lemma for_each_invariant:
  assumes "for_each body st xs = Inr st'" and "I st"
    and "\<And>s x s'. x \<in> set xs \<Longrightarrow> I s \<Longrightarrow> body s x = Inr s' \<Longrightarrow> I s'"
  shows "I st'"
  using assms
proof (induction xs arbitrary: st)
  case Nil
  then show ?case by simp
next
  case (Cons x xs)
  from Cons.prems(1) obtain s1 where s1: "body st x = Inr s1" and rest: "for_each body s1 xs = Inr st'"
    by (auto split: sum.splits)
  have s1I: "I s1" using Cons.prems(3) [OF _ Cons.prems(2) s1] by simp
  show ?case
  proof (rule Cons.IH [OF rest s1I])
    fix s y s'
    assume "y \<in> set xs" and "I s" and "body s y = Inr s'"
    then show "I s'" using Cons.prems(3) [of y s s'] by simp
  qed
qed

lemma link_once_append:
  assumes "link_once L" and "(a, b) \<notin> set L" and "(b, a) \<notin> set L"
  shows "link_once (L @ [(a, b)])"
  unfolding link_once_def
proof
  fix l
  assume mem: "l \<in> set (L @ [(a, b)])"
  show "length (filter (\<lambda>l'. l' = l \<or> l' = prod.swap l) (L @ [(a, b)])) = 1"
  proof (cases "l \<in> set L")
    case True
    have "(a, b) \<noteq> l" using True assms(2) by auto
    moreover have "(a, b) \<noteq> prod.swap l"
    proof
      assume "(a, b) = prod.swap l"
      then have "prod.swap (a, b) = l" by simp
      then show False using True assms(3) by simp
    qed
    ultimately show ?thesis using assms(1) True by (simp add: link_once_def)
  next
    case False
    with mem have e: "l = (a, b)" by simp
    have "filter (\<lambda>l'. l' = l \<or> l' = prod.swap l) L = []"
      unfolding e filter_empty_conv using assms(2,3) by auto
    then show ?thesis using e by simp
  qed
qed

lemma extract_invariant:
  assumes ex: "extract_lldp_details lldp = Inr (H, L, C)"
    and init: "I \<lparr>discovered_hosts = {}, lldp_capabilities_dict = [], global_interconnections = []\<rparr>"
    and host: "\<And>st h. h \<noteq> [] \<Longrightarrow> I st \<Longrightarrow>
                 J h (st\<lparr>discovered_hosts := insert h (discovered_hosts st)\<rparr>)"
    and nb: "\<And>st h d i nbs n st'.
                 (h, Dict d) \<in> set lldp \<Longrightarrow> (i, nbs) \<in> set d \<Longrightarrow> n \<in> set nbs \<Longrightarrow>
                 J h st \<Longrightarrow> neighbor_step h i st n = Inr st' \<Longrightarrow> J h st'"
    and leave: "\<And>st h. J h st \<Longrightarrow> I st"
  shows "\<exists>st. I st \<and> H = discovered_hosts st \<and> L = global_interconnections st
              \<and> C = lldp_capabilities_dict st"
proof -
  let ?init = "\<lparr>discovered_hosts = {}, lldp_capabilities_dict = [], global_interconnections = []\<rparr>"
  from ex obtain st where st: "for_each host_step ?init lldp = Inr st"
    and out: "H = discovered_hosts st" "L = global_interconnections st"
             "C = lldp_capabilities_dict st"
    by (auto simp: extract_lldp_details_def split: sum.splits)
  have "I st"
    using st init
  proof (rule for_each_invariant)
    fix s item s'
    assume item: "item \<in> set lldp" and s: "I s" and step: "host_step s item = Inr s'"
    obtain h lldp_data where hd: "item = (h, lldp_data)" by (cases item)
    let ?s1 = "s\<lparr>discovered_hosts := insert h (discovered_hosts s)\<rparr>"
    show "I s'"
    proof (cases "h = []")
      case True
      with step s hd show ?thesis by simp
    next
      case False
      then have s1: "J h ?s1" using host s by simp
      show ?thesis
      proof (cases lldp_data)
        case EmptyList
        with step hd False leave [OF s1] show ?thesis by (simp add: Let_def)
      next
        case (Dict d)
        show ?thesis
        proof (cases "d = []")
          case True
          with step hd False leave [OF s1] Dict show ?thesis by (simp add: Let_def)
        next
          case nonempty: False
          with step hd False Dict have run: "for_each (interface_step h) ?s1 d = Inr s'"
            by (simp add: Let_def)
          from run s1 have "J h s'"
          proof (rule for_each_invariant)
            fix t entry t'
            assume entry: "entry \<in> set d" and t: "J h t" and istep: "interface_step h t entry = Inr t'"
            obtain i nbs where e: "entry = (i, nbs)" by (cases entry)
            from istep e have nrun: "for_each (neighbor_step h i) t nbs = Inr t'" by simp
            from nrun t show "J h t'"
            proof (rule for_each_invariant)
              fix u n u'
              assume "n \<in> set nbs" and "J h u" and "neighbor_step h i u n = Inr u'"
              then show "J h u'"
                using nb [of h d i nbs n u u'] item hd Dict entry e by simp
            qed
          qed
          then show ?thesis by (rule leave)
        qed
      qed
    qed
  qed
  with out show ?thesis by blast
qed

lemma neighbor_step_link_once:
  assumes "neighbor_step host interface st nb = Inr st'" and "link_once (global_interconnections st)"
  shows "link_once (global_interconnections st')"
  using assms
  by (auto simp: neighbor_step_def Let_def link_once_append split: if_splits list.splits)

lemma extract_link_once:
  assumes "extract_lldp_details lldp = Inr (H, L, C)"
  shows "link_once L"
proof -
  have e: "link_once []" by (simp add: link_once_def)
  have "\<exists>st::extract_state. link_once (global_interconnections st) \<and> H = discovered_hosts st
           \<and> L = global_interconnections st \<and> C = lldp_capabilities_dict st"
    by (rule extract_invariant [where I = "\<lambda>s. link_once (global_interconnections s)"
          and J = "\<lambda>h s. link_once (global_interconnections s)", OF assms])
       (simp_all add: e neighbor_step_link_once)
  then show ?thesis by blast
qed

lemma neighbor_step_Inr:
  assumes "neighbor_step h i st n = Inr st'"
  shows "st' = st
     \<or> (\<exists>cap. discovered_hosts st' = insert (remote_system_name n) (discovered_hosts st)
           \<and> lldp_capabilities_dict st'
               = AList.update (remote_system_name n) cap (lldp_capabilities_dict st)
           \<and> (global_interconnections st' = global_interconnections st
                \<or> global_interconnections st' = global_interconnections st @
                     [((h, i), (remote_system_name n, if_fullname (remote_port n)))]))"
proof (cases "remote_system_name n = []")
  case True
  with assms show ?thesis by (simp add: neighbor_step_def)
next
  case False
  show ?thesis
  proof (cases "remote_system_enable_capab n")
    case Nil
    with assms False show ?thesis by (simp add: neighbor_step_def)
  next
    case (Cons cap rest)
    with assms False show ?thesis
      by (cases "((h, i), (remote_system_name n, if_fullname (remote_port n)))
                   \<in> set (global_interconnections st)
                 \<or> ((remote_system_name n, if_fullname (remote_port n)), (h, i))
                   \<in> set (global_interconnections st)")
         (auto simp: neighbor_step_def Let_def)
  qed
qed

lemma extract_endpoints_in_hosts:
  assumes "extract_lldp_details lldp = Inr (H, L, C)"
  shows "\<forall>l \<in> set L. fst (fst l) \<in> H \<and> fst (snd l) \<in> H"
proof -
  let ?I = "\<lambda>s::extract_state. \<forall>l \<in> set (global_interconnections s).
              fst (fst l) \<in> discovered_hosts s \<and> fst (snd l) \<in> discovered_hosts s"
  have "\<exists>st::extract_state. ?I st \<and> H = discovered_hosts st
           \<and> L = global_interconnections st \<and> C = lldp_capabilities_dict st"
  proof (rule extract_invariant [where I = ?I and J = "\<lambda>h s. ?I s \<and> h \<in> discovered_hosts s",
        OF assms])
    fix st :: extract_state and h d i nbs n st'
    assume inv: "?I st \<and> h \<in> discovered_hosts st" and step: "neighbor_step h i st n = Inr st'"
    from neighbor_step_Inr [OF step] show "?I st' \<and> h \<in> discovered_hosts st'"
    proof (elim disjE exE conjE)
      assume "st' = st"
      with inv show ?thesis by simp
    next
      fix cap
      assume "discovered_hosts st' = insert (remote_system_name n) (discovered_hosts st)"
        and "global_interconnections st' = global_interconnections st"
      with inv show ?thesis by simp
    next
      fix cap
      assume "discovered_hosts st' = insert (remote_system_name n) (discovered_hosts st)"
        and "global_interconnections st' = global_interconnections st @
                     [((h, i), (remote_system_name n, if_fullname (remote_port n)))]"
      with inv show ?thesis by simp
    qed
  qed simp_all
  then show ?thesis by blast
qed

lemma neighbor_step_caps:
  assumes "neighbor_step h i st n = Inr st'"
  shows "fst ` set (lldp_capabilities_dict st')
         \<subseteq> insert (remote_system_name n) (fst ` set (lldp_capabilities_dict st))"
  using neighbor_step_Inr [OF assms]
proof (elim disjE exE conjE)
  assume "st' = st"
  then show ?thesis by blast
next
  fix cap
  assume "lldp_capabilities_dict st'
               = AList.update (remote_system_name n) cap (lldp_capabilities_dict st)"
  then show ?thesis by (simp add: dom_update)
next
  fix cap
  assume "lldp_capabilities_dict st'
               = AList.update (remote_system_name n) cap (lldp_capabilities_dict st)"
  then show ?thesis by (simp add: dom_update)
qed

lemma reported_neighborsI:
  assumes "(h, Dict d) \<in> set lldp" and "(i, nbs) \<in> set d" and "n \<in> set nbs"
  shows "remote_system_name n \<in> set (reported_neighbors lldp)"
proof -
  from assms(1) obtain xs ys where l: "lldp = xs @ (h, Dict d) # ys"
    by (meson split_list)
  from assms(2) obtain ds es where d: "d = ds @ (i, nbs) # es"
    by (meson split_list)
  show ?thesis
    unfolding reported_neighbors_def l d using assms(3) by simp
qed

lemma extract_caps_reported:
  assumes "extract_lldp_details lldp = Inr (H, L, C)"
  shows "fst ` set C \<subseteq> set (reported_neighbors lldp)"
proof -
  define R where "R = set (reported_neighbors lldp)"
  let ?I = "\<lambda>s::extract_state. fst ` set (lldp_capabilities_dict s) \<subseteq> R"
  have "\<exists>st::extract_state. ?I st \<and> H = discovered_hosts st
           \<and> L = global_interconnections st \<and> C = lldp_capabilities_dict st"
  proof (rule extract_invariant [where I = ?I and J = "\<lambda>h. ?I", OF assms])
    fix st :: extract_state and h d i nbs n st'
    assume mem: "(h, Dict d) \<in> set lldp" "(i, nbs) \<in> set d" "n \<in> set nbs"
      and inv: "?I st" and step: "neighbor_step h i st n = Inr st'"
    from mem have "remote_system_name n \<in> R"
      unfolding R_def by (rule reported_neighborsI)
    with inv have "insert (remote_system_name n) (fst ` set (lldp_capabilities_dict st)) \<subseteq> R"
      by simp
    with neighbor_step_caps [OF step] show "?I st'"
      by (rule subset_trans)
  next
    show "?I \<lparr>discovered_hosts = {}, lldp_capabilities_dict = [], global_interconnections = []\<rparr>"
      by simp
  next
    fix st :: extract_state and h :: string
    assume "?I st"
    then show "?I (st\<lparr>discovered_hosts := insert h (discovered_hosts st)\<rparr>)" by simp
  next
    fix st :: extract_state
    assume "?I st"
    then show "?I st" .
  qed
  then show ?thesis unfolding R_def by blast
qed

section \<open>The extractor: links\<close>

lemmas eval_extract = extract_lldp_details_def neighbor_step_def Let_def if_fullname_def
  interface_full_name_map_def insert_commute

text \<open>
  Claim C1. In the link list that \<open>extract_lldp_details\<close> returns, every link occurs
  exactly once when both endpoint orders are counted: a candidate equal to a recorded
  link, or to that link with its ends swapped, was discarded. Devices and interface
  names are compared as they are.
\<close>

theorem link_dedup_symmetric:
  assumes "extract_lldp_details lldp = Inr (H, L, C)" and "(a, b) \<in> set L"
  shows "length (filter (\<lambda>l. l = (a, b) \<or> l = (b, a)) L) = 1"
  using extract_link_once [OF assms(1)] assms(2) unfolding link_once_def by fastforce

theorem link_dedup_symmetric_witness:
  "extract_lldp_details lldp_long_local =
     Inr ({''a'', ''b''},
          [((''a'', ''GigabitEthernet0/1''), (''b'', ''GigabitEthernet0/2''))],
          [(''b'', ''switch''), (''a'', ''router'')])
   \<and> ((''a'', ''GigabitEthernet0/1''), (''b'', ''GigabitEthernet0/2''))
         \<in> set [((''a'', ''GigabitEthernet0/1''), (''b'', ''GigabitEthernet0/2''))]
   \<and> length (filter (\<lambda>l. l = ((''a'', ''GigabitEthernet0/1''), (''b'', ''GigabitEthernet0/2''))
                         \<or> l = ((''b'', ''GigabitEthernet0/2''), (''a'', ''GigabitEthernet0/1'')))
                [((''a'', ''GigabitEthernet0/1''), (''b'', ''GigabitEthernet0/2''))]) = 1"
proof -
  have run: "extract_lldp_details lldp_long_local =
     Inr ({''a'', ''b''},
          [((''a'', ''GigabitEthernet0/1''), (''b'', ''GigabitEthernet0/2''))],
          [(''b'', ''switch''), (''a'', ''router'')])"
    by (simp add: eval_extract lldp_long_local_def)
  have mem: "((''a'', ''GigabitEthernet0/1''), (''b'', ''GigabitEthernet0/2''))
         \<in> set [((''a'', ''GigabitEthernet0/1''), (''b'', ''GigabitEthernet0/2''))]"
    by simp
  from link_dedup_symmetric [OF run mem] run mem show ?thesis
    by (intro conjI)
qed

text \<open>
  Claim C10. One cable between \<open>a\<close> and \<open>b\<close>, reported by both devices with abbreviated
  local interface names, gives two entries in the link list: the local name is stored
  as reported and only the remote port is put in long form, so neither entry equals
  the other in any endpoint order.
\<close>

theorem both_ends_abbreviated_two_links:
  "extract_lldp_details lldp_short_local =
     Inr ({''a'', ''b''},
          [((''a'', ''Gi0/1''), (''b'', ''GigabitEthernet0/2'')),
           ((''b'', ''Gi0/2''), (''a'', ''GigabitEthernet0/1''))],
          [(''b'', ''switch''), (''a'', ''router'')])"
  by (simp add: eval_extract lldp_short_local_def)

text \<open>
  Claim C8 at the input \<open>lldp_one_report\<close>: the local end of the link keeps the name
  \<open>Gi0/1\<close>, whose long form is \<open>GigabitEthernet0/1\<close>; only the remote end is in long
  form.
\<close>

theorem local_interface_stored_as_reported:
  "extract_lldp_details lldp_one_report =
     Inr ({''a.example'', ''b.example'', ''b''},
          [((''a.example'', ''Gi0/1''), (''b.example'', ''GigabitEthernet0/2''))],
          [(''b.example'', ''switch'')])
   \<and> if_fullname ''Gi0/1'' = ''GigabitEthernet0/1''"
  by (simp add: eval_extract lldp_one_report_def)

text \<open>
  Claim C9 at the input \<open>lldp_no_capability\<close>: a neighbor record with a name and an
  empty list of enabled capabilities makes \<open>extract_lldp_details\<close> raise IndexError.
\<close>

theorem empty_capability_list_raises:
  "extract_lldp_details lldp_no_capability = Inl IndexError"
  by (simp add: eval_extract lldp_no_capability_def)

section \<open>The loops of the builder\<close>

lemma nodes_loop_snoc:
  "nodes_loop caps fs (xs @ [x]) = node_step caps fs (nodes_loop caps fs xs) x"
  by (simp add: nodes_loop_def)

lemma nodes_loop_spec:
  "host_id (nodes_loop caps fs hs) = length hs
   \<and> topology_nodes (nodes_loop caps fs hs) = map (make_node caps fs) (enumerate 0 hs)
   \<and> fst ` set (host_id_map (nodes_loop caps fs hs)) = set hs
   \<and> (\<forall>h i. map_of (host_id_map (nodes_loop caps fs hs)) h = Some i \<longrightarrow> i < length hs \<and> hs ! i = h)"
proof (induction hs rule: rev_induct)
  case Nil
  show ?case by (simp add: nodes_loop_def)
next
  case (snoc x xs)
  let ?p = "nodes_loop caps fs xs"
  have 1: "host_id (node_step caps fs ?p x) = length (xs @ [x])"
    using snoc by (simp add: node_step_def)
  have 2: "topology_nodes (node_step caps fs ?p x) = map (make_node caps fs) (enumerate 0 (xs @ [x]))"
    using snoc by (simp add: node_step_def enumerate_append_eq make_node_def)
  have 3: "fst ` set (host_id_map (node_step caps fs ?p x)) = set (xs @ [x])"
    using snoc by (simp add: node_step_def dom_update)
  have 4: "\<forall>h i. map_of (host_id_map (node_step caps fs ?p x)) h = Some i
             \<longrightarrow> i < length (xs @ [x]) \<and> (xs @ [x]) ! i = h"
    using snoc by (auto simp: node_step_def update_conv' nth_append less_Suc_eq)
  show ?case unfolding nodes_loop_snoc using 1 2 3 4 by blast
qed

lemma links_loop:
  assumes "\<forall>l \<in> set ls. fst (fst l) \<in> fst ` set idmap \<and> fst (snd l) \<in> fst ` set idmap"
  shows "for_each (link_step idmap) st ls =
           Inr \<lparr>next_link_id = next_link_id st + length ls,
                topology_links = topology_links st @
                   map (make_link idmap) (enumerate (next_link_id st) ls)\<rparr>"
  using assms
proof (induction ls arbitrary: st)
  case Nil
  then show ?case by simp
next
  case (Cons l ls)
  have "map_of idmap (fst (fst l)) \<noteq> None" and "map_of idmap (fst (snd l)) \<noteq> None"
    using Cons.prems by (simp_all add: map_of_eq_None_iff)
  then obtain s t where s: "map_of idmap (fst (fst l)) = Some s"
    and t: "map_of idmap (fst (snd l)) = Some t"
    by blast
  have step: "link_step idmap st l =
     Inr \<lparr>next_link_id = next_link_id st + 1,
          topology_links = topology_links st @ [make_link idmap (next_link_id st, l)]\<rparr>"
    by (simp add: link_step_def s t make_link_def)
  show ?case using Cons.prems by (simp add: step Cons.IH)
qed


lemma map_snd_enumerate_comp: "map (\<lambda>p. f (snd p)) (enumerate n xs) = map f xs"
  by (induction xs arbitrary: n) simp_all

section \<open>The builder: ids and references\<close>

text \<open>
  Claim C4. Let the extractor return hosts, links and capabilities, and let \<open>hs\<close> be
  any enumeration of the host set, with any facts. Then the builder raises no KeyError;
  the node ids are \<open>0, ..., n - 1\<close> in the order of the enumeration, the link ids are
  \<open>0, ..., m - 1\<close> in the order of the link list; and for every link the node at
  position \<open>source\<close> has that id and the name \<open>srcDevice\<close>, and likewise for \<open>target\<close>
  and \<open>tgtDevice\<close>.
\<close>

theorem topology_ids_dense:
  assumes ex: "extract_lldp_details lldp = Inr (H, L, C)"
    and hs: "set hs = H" and dist: "distinct hs"
  shows "\<exists>topo. generate_topology_json hs L C fs = Inr topo
           \<and> map node_id (nodes topo) = [0..<card H]
           \<and> map name (nodes topo) = hs
           \<and> map link_id (links topo) = [0..<length L]
           \<and> map srcDevice (links topo) = map (\<lambda>l. fst (fst l)) L
           \<and> map tgtDevice (links topo) = map (\<lambda>l. fst (snd l)) L
           \<and> (\<forall>l \<in> set (links topo).
                 source l < length (nodes topo) \<and> target l < length (nodes topo)
                 \<and> node_id (nodes topo ! source l) = source l
                 \<and> name (nodes topo ! source l) = srcDevice l
                 \<and> node_id (nodes topo ! target l) = target l
                 \<and> name (nodes topo ! target l) = tgtDevice l)"
proof -
  let ?ns = "nodes_loop C fs hs"
  let ?idmap = "host_id_map ?ns"
  let ?ls = "map (make_link ?idmap) (enumerate 0 L)"
  let ?topo = "\<lparr>nodes = topology_nodes ?ns, links = ?ls\<rparr>"
  note spec = nodes_loop_spec [of C fs hs]
  from spec have nodes_eq: "topology_nodes ?ns = map (make_node C fs) (enumerate 0 hs)"
    and dom: "fst ` set ?idmap = set hs"
    and ids: "\<And>h i. map_of ?idmap h = Some i \<Longrightarrow> i < length hs \<and> hs ! i = h"
    by blast+
  have ends: "\<forall>l \<in> set L. fst (fst l) \<in> fst ` set ?idmap \<and> fst (snd l) \<in> fst ` set ?idmap"
    using extract_endpoints_in_hosts [OF ex] hs dom by simp
  have run: "generate_topology_json hs L C fs = Inr ?topo"
    unfolding generate_topology_json_def Let_def links_loop [OF ends] by simp
  have card: "card H = length hs"
    using hs dist distinct_card by blast
  have n1: "map node_id (nodes ?topo) = [0..<card H]"
    unfolding card by (simp add: nodes_eq make_node_def comp_def map_fst_enumerate)
  have n2: "map name (nodes ?topo) = hs"
    by (simp add: nodes_eq make_node_def comp_def)
  have l1: "map link_id (links ?topo) = [0..<length L]"
    by (simp add: make_link_def comp_def map_fst_enumerate)
  have l2: "map srcDevice (links ?topo) = map (\<lambda>l. fst (fst l)) L"
    using map_snd_enumerate_comp [of "\<lambda>l. fst (fst l)" 0 L]
    by (simp add: make_link_def comp_def)
  have l3: "map tgtDevice (links ?topo) = map (\<lambda>l. fst (snd l)) L"
    using map_snd_enumerate_comp [of "\<lambda>l. fst (snd l)" 0 L]
    by (simp add: make_link_def comp_def)
  have nth_node: "nodes ?topo ! i = make_node C fs (i, hs ! i)" if "i < length hs" for i
    using that by (simp add: nodes_eq nth_enumerate_eq)
  have l4: "source l < length (nodes ?topo) \<and> target l < length (nodes ?topo)
                 \<and> node_id (nodes ?topo ! source l) = source l
                 \<and> name (nodes ?topo ! source l) = srcDevice l
                 \<and> node_id (nodes ?topo ! target l) = target l
                 \<and> name (nodes ?topo ! target l) = tgtDevice l"
    if "l \<in> set (links ?topo)" for l
  proof -
    from that obtain p where p: "p \<in> set (enumerate 0 L)" and l: "l = make_link ?idmap p"
      by auto
    from p have "snd p \<in> snd ` set (enumerate 0 L)" by (rule imageI)
    then have "snd p \<in> set (map snd (enumerate 0 L))" by (simp only: set_map)
    then have pl: "snd p \<in> set L" by (simp only: map_snd_enumerate)
    from ends pl have "map_of ?idmap (fst (fst (snd p))) \<noteq> None"
      and "map_of ?idmap (fst (snd (snd p))) \<noteq> None"
      by (simp_all add: map_of_eq_None_iff)
    then obtain s t where s: "map_of ?idmap (fst (fst (snd p))) = Some s"
      and t: "map_of ?idmap (fst (snd (snd p))) = Some t"
      by blast
    from ids [OF s] ids [OF t] have "s < length hs" "hs ! s = fst (fst (snd p))"
      "t < length hs" "hs ! t = fst (snd (snd p))" by simp_all
    moreover have "source l = s" "target l = t" "srcDevice l = fst (fst (snd p))"
      "tgtDevice l = fst (snd (snd p))"
      by (simp_all add: l make_link_def s t)
    moreover have "length (nodes ?topo) = length hs" by (simp add: nodes_eq)
    ultimately show ?thesis
      by (simp add: nth_node make_node_def del: topology.simps)
  qed
  from run n1 n2 l1 l2 l3 l4 show ?thesis by blast
qed


theorem topology_ids_dense_witness:
  "extract_lldp_details lldp_one_report =
     Inr ({''a.example'', ''b.example'', ''b''},
          [((''a.example'', ''Gi0/1''), (''b.example'', ''GigabitEthernet0/2''))],
          [(''b.example'', ''switch'')])
   \<and> set [''b'', ''a.example'', ''b.example''] = {''a.example'', ''b.example'', ''b''}
   \<and> distinct [''b'', ''a.example'', ''b.example'']
   \<and> (\<exists>topo. generate_topology_json [''b'', ''a.example'', ''b.example'']
                [((''a.example'', ''Gi0/1''), (''b.example'', ''GigabitEthernet0/2''))]
                [(''b.example'', ''switch'')] facts_one_report = Inr topo
           \<and> map node_id (nodes topo) = [0, 1, 2]
           \<and> map name (nodes topo) = [''b'', ''a.example'', ''b.example'']
           \<and> map link_id (links topo) = [0]
           \<and> map source (links topo) = [1]
           \<and> map target (links topo) = [2])"
proof -
  let ?H = "{''a.example'', ''b.example'', ''b''}"
  let ?L = "[((''a.example'', ''Gi0/1''), (''b.example'', ''GigabitEthernet0/2''))]"
  let ?C = "[(''b.example'', ''switch'')]"
  let ?hs = "[''b'', ''a.example'', ''b.example'']"
  have run: "extract_lldp_details lldp_one_report = Inr (?H, ?L, ?C)"
    by (simp add: eval_extract lldp_one_report_def)
  have hs: "set ?hs = ?H" by (simp add: insert_commute)
  have dist: "distinct ?hs" by simp
  have card: "card ?H = 3" by simp
  note dense = topology_ids_dense [OF run hs dist, of facts_one_report]
  have ev: "generate_topology_json ?hs ?L ?C facts_one_report =
      Inr \<lparr>nodes = [\<lparr>node_id = 0, name = ''b'', model = ''n/a'', serial_number = ''n/a'', icon = ''unknown''\<rparr>,
                      \<lparr>node_id = 1, name = ''a.example'', model = ''X'', serial_number = ''1'', icon = ''unknown''\<rparr>,
                      \<lparr>node_id = 2, name = ''b.example'', model = ''n/a'', serial_number = ''n/a'', icon = ''switch''\<rparr>],
            links = [\<lparr>link_id = 0, source = 1, target = 2, srcIfName = ''Gi0/1'',
                      srcDevice = ''a.example'', tgtIfName = ''Gi0/2'', tgtDevice = ''b.example''\<rparr>]\<rparr>"
    by (simp add: generate_topology_json_def nodes_loop_def node_step_def link_step_def Let_def
        facts_field_def facts_one_report_def dict_get_def get_icon_type_def icon_type_map_def
        if_shortname_def interface_full_name_map_def)
  from dense have "\<exists>topo. generate_topology_json ?hs ?L ?C facts_one_report = Inr topo
           \<and> map node_id (nodes topo) = [0, 1, 2]
           \<and> map name (nodes topo) = ?hs
           \<and> map link_id (links topo) = [0]
           \<and> map source (links topo) = [1]
           \<and> map target (links topo) = [2]"
    unfolding ev card by (simp add: upt_rec)
  with run hs dist show ?thesis by (intro conjI)
qed

section \<open>The builder: icons\<close>

lemma get_icon_type_cases:
  "get_icon_type c =
     (if c = ''router'' then ''router'' else if c = ''switch'' then ''switch''
      else if c = ''bridge'' then ''switch'' else if c = ''station'' then ''host''
      else ''unknown'')"
  by (simp add: get_icon_type_def dict_get_def icon_type_map_def)

lemma generate_topology_json_nodes:
  assumes "generate_topology_json hs L C fs = Inr topo"
  shows "nodes topo = map (make_node C fs) (enumerate 0 hs)"
proof -
  from assms have "nodes topo = topology_nodes (nodes_loop C fs hs)"
    by (auto simp: generate_topology_json_def Let_def split: sum.splits)
  with nodes_loop_spec [of C fs hs] show ?thesis by simp
qed

text \<open>
  Claim C6. For every node of a topology built from the extractor's output, the icon is
  read off the capability code that the extractor recorded for the node's name, that
  is, from what neighbors reported: \<open>router\<close>, \<open>switch\<close>, \<open>bridge\<close> and \<open>station\<close>
  give \<open>router\<close>, \<open>switch\<close>, \<open>switch\<close> and \<open>host\<close>; any other code and a missing code give
  \<open>unknown\<close>. A device that no neighbor record names has the icon \<open>unknown\<close>.
\<close>

theorem node_icon_from_capability:
  assumes ex: "extract_lldp_details lldp = Inr (H, L, C)"
    and gen: "generate_topology_json hs L C fs = Inr topo"
    and n: "n \<in> set (nodes topo)"
  shows "icon n =
           (case map_of C (name n) of
              None \<Rightarrow> ''unknown''
            | Some cap \<Rightarrow>
                if cap = ''router'' then ''router'' else if cap = ''switch'' then ''switch''
                else if cap = ''bridge'' then ''switch'' else if cap = ''station'' then ''host''
                else ''unknown'')
         \<and> (name n \<notin> set (reported_neighbors lldp) \<longrightarrow> icon n = ''unknown'')"
proof -
  from n generate_topology_json_nodes [OF gen]
  obtain p where "n = make_node C fs p" by auto
  then have ic: "icon n = get_icon_type (dict_get C (name n) [])"
    by (simp add: make_node_def)
  have first: "icon n =
           (case map_of C (name n) of
              None \<Rightarrow> ''unknown''
            | Some cap \<Rightarrow>
                if cap = ''router'' then ''router'' else if cap = ''switch'' then ''switch''
                else if cap = ''bridge'' then ''switch'' else if cap = ''station'' then ''host''
                else ''unknown'')"
  proof (cases "map_of C (name n)")
    case None
    then show ?thesis unfolding ic by (simp add: dict_get_def get_icon_type_cases)
  next
    case (Some cap)
    then show ?thesis unfolding ic by (simp add: dict_get_def get_icon_type_cases [of cap])
  qed
  have second: "icon n = ''unknown''" if "name n \<notin> set (reported_neighbors lldp)"
  proof -
    from that extract_caps_reported [OF ex] have "name n \<notin> fst ` set C" by blast
    then have "map_of C (name n) = None" by (simp add: map_of_eq_None_iff)
    with first show ?thesis by simp
  qed
  from first second show ?thesis by blast
qed


theorem node_icon_from_capability_witness:
  "extract_lldp_details lldp_one_report =
     Inr ({''a.example'', ''b.example'', ''b''},
          [((''a.example'', ''Gi0/1''), (''b.example'', ''GigabitEthernet0/2''))],
          [(''b.example'', ''switch'')])
   \<and> generate_topology_json [''b'', ''a.example'', ''b.example'']
         [((''a.example'', ''Gi0/1''), (''b.example'', ''GigabitEthernet0/2''))]
         [(''b.example'', ''switch'')] facts_one_report =
       Inr \<lparr>nodes = [\<lparr>node_id = 0, name = ''b'', model = ''n/a'', serial_number = ''n/a'', icon = ''unknown''\<rparr>,
                      \<lparr>node_id = 1, name = ''a.example'', model = ''X'', serial_number = ''1'', icon = ''unknown''\<rparr>,
                      \<lparr>node_id = 2, name = ''b.example'', model = ''n/a'', serial_number = ''n/a'', icon = ''switch''\<rparr>],
            links = [\<lparr>link_id = 0, source = 1, target = 2, srcIfName = ''Gi0/1'',
                      srcDevice = ''a.example'', tgtIfName = ''Gi0/2'', tgtDevice = ''b.example''\<rparr>]\<rparr>
   \<and> ''a.example'' \<notin> set (reported_neighbors lldp_one_report)
   \<and> icon \<lparr>node_id = 1, name = ''a.example'', model = ''X'', serial_number = ''1'', icon = ''unknown''\<rparr>
       = ''unknown''
   \<and> map_of [(''b.example'', ''switch'')] ''b.example'' = Some ''switch''
   \<and> icon \<lparr>node_id = 2, name = ''b.example'', model = ''n/a'', serial_number = ''n/a'', icon = ''switch''\<rparr>
       = ''switch''"
proof -
  let ?H = "{''a.example'', ''b.example'', ''b''}"
  let ?L = "[((''a.example'', ''Gi0/1''), (''b.example'', ''GigabitEthernet0/2''))]"
  let ?C = "[(''b.example'', ''switch'')]"
  let ?hs = "[''b'', ''a.example'', ''b.example'']"
  let ?a = "\<lparr>node_id = 1, name = ''a.example'', model = ''X'', serial_number = ''1'', icon = ''unknown''\<rparr>"
  let ?b = "\<lparr>node_id = 2, name = ''b.example'', model = ''n/a'', serial_number = ''n/a'', icon = ''switch''\<rparr>"
  let ?topo = "\<lparr>nodes = [\<lparr>node_id = 0, name = ''b'', model = ''n/a'', serial_number = ''n/a'', icon = ''unknown''\<rparr>,
                      ?a, ?b],
            links = [\<lparr>link_id = 0, source = 1, target = 2, srcIfName = ''Gi0/1'',
                      srcDevice = ''a.example'', tgtIfName = ''Gi0/2'', tgtDevice = ''b.example''\<rparr>]\<rparr>"
  have run: "extract_lldp_details lldp_one_report = Inr (?H, ?L, ?C)"
    by (simp add: eval_extract lldp_one_report_def)
  have ev: "generate_topology_json ?hs ?L ?C facts_one_report = Inr ?topo"
    by (simp add: generate_topology_json_def nodes_loop_def node_step_def link_step_def Let_def
        facts_field_def facts_one_report_def dict_get_def get_icon_type_def icon_type_map_def
        if_shortname_def interface_full_name_map_def)
  have ma: "?a \<in> set (nodes ?topo)" and mb: "?b \<in> set (nodes ?topo)" by simp_all
  have nr: "''a.example'' \<notin> set (reported_neighbors lldp_one_report)"
    by (simp add: reported_neighbors_def lldp_one_report_def)
  have ca: "map_of ?C ''b.example'' = Some ''switch''" by simp
  from node_icon_from_capability [OF run ev ma] nr have ia: "icon ?a = ''unknown''"
    by simp
  from node_icon_from_capability [OF run ev mb] have ib: "icon ?b = ''switch''"
    by simp
  from run ev nr ia ca ib show ?thesis by (intro conjI)
qed

section \<open>The collection-result normalizer\<close>











section \<open>The diff engine\<close>

lemma either_order_pred:
  "(\<lambda>(src, dst). (src, dst) \<notin> K \<and> (dst, src) \<notin> K) = (\<lambda>l. l \<notin> K \<and> prod.swap l \<notin> K)"
  by (auto simp: fun_eq_iff)

lemma link_key_ignores_ids:
  "link_key \<circ> (\<lambda>l. l\<lparr>link_id := j l, source := a l, target := b l\<rparr>) = link_key"
  by (simp add: fun_eq_iff link_key_def)

lemma name_ignores_other_fields:
  "name \<circ> (\<lambda>n. n\<lparr>node_id := i n, model := m n, serial_number := s n, icon := c n\<rparr>) = name"
  by (simp add: fun_eq_iff)

lemma diff_links_by_fields:
  "{l \<in> link_key ` set xs. l \<notin> link_key ` set ys \<and> prod.swap l \<notin> link_key ` set ys}
   = {e. (\<exists>x \<in> set xs. e = ((srcDevice x, srcIfName x), (tgtDevice x, tgtIfName x)))
         \<and> \<not> (\<exists>y \<in> set ys. e = ((srcDevice y, srcIfName y), (tgtDevice y, tgtIfName y))
                             \<or> e = ((tgtDevice y, tgtIfName y), (srcDevice y, srcIfName y)))}"
proof -
  have swap: "prod.swap l = link_key y \<longleftrightarrow>
              l = ((tgtDevice y, tgtIfName y), (srcDevice y, srcIfName y))" for l y
    by (cases l) (auto simp: link_key_def)
  have "prod.swap l \<in> link_key ` set ys \<longleftrightarrow>
        (\<exists>y \<in> set ys. l = ((tgtDevice y, tgtIfName y), (srcDevice y, srcIfName y)))" for l
    unfolding image_iff swap ..
  moreover have "l \<in> link_key ` set zs \<longleftrightarrow>
        (\<exists>z \<in> set zs. l = ((srcDevice z, srcIfName z), (tgtDevice z, tgtIfName z)))" for l zs
    unfolding image_iff link_key_def ..
  ultimately show ?thesis by blast
qed

text \<open>
  Claim C2. A node name is in \<open>added\<close> iff it is the \<open>name\<close> of a node of the current
  snapshot and of no node of the previous one, and in \<open>deleted\<close> iff it is the name of
  a node of the previous snapshot and of no node of the current one. A pair of endpoints
  is in the \<open>added\<close> links iff it is \<open>((srcDevice, srcIfName), (tgtDevice, tgtIfName))\<close> of
  a link of the current snapshot and no link of the previous snapshot has these two
  endpoints, in this order or in the other; and in \<open>deleted\<close> the other way round. The
  ids and every other field play no part: changing them in both snapshots leaves the
  diff as it is.
\<close>

theorem topology_diff_by_name_and_endpoints:
  "set (added (fst (get_topology_diff prev cur)))
     = name ` set (nodes cur) - name ` set (nodes prev)
   \<and> set (deleted (fst (get_topology_diff prev cur)))
     = name ` set (nodes prev) - name ` set (nodes cur)
   \<and> set (added (snd (get_topology_diff prev cur)))
     = {e. (\<exists>x \<in> set (links cur). e = ((srcDevice x, srcIfName x), (tgtDevice x, tgtIfName x)))
           \<and> \<not> (\<exists>y \<in> set (links prev).
                    e = ((srcDevice y, srcIfName y), (tgtDevice y, tgtIfName y))
                    \<or> e = ((tgtDevice y, tgtIfName y), (srcDevice y, srcIfName y)))}
   \<and> set (deleted (snd (get_topology_diff prev cur)))
     = {e. (\<exists>x \<in> set (links prev). e = ((srcDevice x, srcIfName x), (tgtDevice x, tgtIfName x)))
           \<and> \<not> (\<exists>y \<in> set (links cur).
                    e = ((srcDevice y, srcIfName y), (tgtDevice y, tgtIfName y))
                    \<or> e = ((tgtDevice y, tgtIfName y), (srcDevice y, srcIfName y)))}
   \<and> get_topology_diff
        \<lparr>nodes = map (\<lambda>n. n\<lparr>node_id := i n, model := m n, serial_number := s n, icon := c n\<rparr>)
                   (nodes prev),
         links = map (\<lambda>l. l\<lparr>link_id := j l, source := a l, target := b l\<rparr>) (links prev)\<rparr>
        \<lparr>nodes = map (\<lambda>n. n\<lparr>node_id := i' n, model := m' n, serial_number := s' n, icon := c' n\<rparr>)
                   (nodes cur),
         links = map (\<lambda>l. l\<lparr>link_id := j' l, source := a' l, target := b' l\<rparr>) (links cur)\<rparr>
     = get_topology_diff prev cur"
proof -
  have 1: "set (added (fst (get_topology_diff prev cur)))
     = name ` set (nodes cur) - name ` set (nodes prev)"
    by (auto simp: get_topology_diff_def Let_def)
  have 2: "set (deleted (fst (get_topology_diff prev cur)))
     = name ` set (nodes prev) - name ` set (nodes cur)"
    by (auto simp: get_topology_diff_def Let_def)
  have "set (added (snd (get_topology_diff prev cur)))
     = {l \<in> link_key ` set (links cur).
          l \<notin> link_key ` set (links prev) \<and> prod.swap l \<notin> link_key ` set (links prev)}"
    by (simp add: get_topology_diff_def Let_def either_order_pred)
  then have 3: "set (added (snd (get_topology_diff prev cur)))
     = {e. (\<exists>x \<in> set (links cur). e = ((srcDevice x, srcIfName x), (tgtDevice x, tgtIfName x)))
           \<and> \<not> (\<exists>y \<in> set (links prev).
                    e = ((srcDevice y, srcIfName y), (tgtDevice y, tgtIfName y))
                    \<or> e = ((tgtDevice y, tgtIfName y), (srcDevice y, srcIfName y)))}"
    by (simp only: diff_links_by_fields)
  have "set (deleted (snd (get_topology_diff prev cur)))
     = {l \<in> link_key ` set (links prev).
          l \<notin> link_key ` set (links cur) \<and> prod.swap l \<notin> link_key ` set (links cur)}"
    by (simp add: get_topology_diff_def Let_def either_order_pred)
  then have 4: "set (deleted (snd (get_topology_diff prev cur)))
     = {e. (\<exists>x \<in> set (links prev). e = ((srcDevice x, srcIfName x), (tgtDevice x, tgtIfName x)))
           \<and> \<not> (\<exists>y \<in> set (links cur).
                    e = ((srcDevice y, srcIfName y), (tgtDevice y, tgtIfName y))
                    \<or> e = ((tgtDevice y, tgtIfName y), (srcDevice y, srcIfName y)))}"
    by (simp only: diff_links_by_fields)
  have 5: "get_topology_diff
        \<lparr>nodes = map (\<lambda>n. n\<lparr>node_id := i n, model := m n, serial_number := s n, icon := c n\<rparr>)
                   (nodes prev),
         links = map (\<lambda>l. l\<lparr>link_id := j l, source := a l, target := b l\<rparr>) (links prev)\<rparr>
        \<lparr>nodes = map (\<lambda>n. n\<lparr>node_id := i' n, model := m' n, serial_number := s' n, icon := c' n\<rparr>)
                   (nodes cur),
         links = map (\<lambda>l. l\<lparr>link_id := j' l, source := a' l, target := b' l\<rparr>) (links cur)\<rparr>
     = get_topology_diff prev cur"
    by (simp add: get_topology_diff_def Let_def link_key_ignores_ids name_ignores_other_fields)
  from 1 2 3 4 5 show ?thesis by (intro conjI)
qed

text \<open>
  Claim C3. Swapping the two snapshots swaps \<open>added\<close> and \<open>deleted\<close>, for the nodes and
  for the links, as lists.
\<close>

theorem topology_diff_swap:
  "added (fst (get_topology_diff prev cur)) = deleted (fst (get_topology_diff cur prev))
   \<and> deleted (fst (get_topology_diff prev cur)) = added (fst (get_topology_diff cur prev))
   \<and> added (snd (get_topology_diff prev cur)) = deleted (snd (get_topology_diff cur prev))
   \<and> deleted (snd (get_topology_diff prev cur)) = added (snd (get_topology_diff cur prev))"
  by (simp add: get_topology_diff_def Let_def)

end
